theory Spec2Isabelle
  imports
    Complex_Main
    "HOL-Library.Char_ord"
    "HOL-Library.List_Lexorder"
    "HOL-Library.Sublist"
    "HOL-Library.Multiset"
begin

section \<open>csv\_to\_xlsx\_process.ts: the worksheet post-processing macro\<close>

text \<open>
  The script is a sequence of calls into the spreadsheet host (the ExcelScript
  automation interface). The procedures of the script (\<open>main\<close>, \<open>hideColumns\<close>,
  \<open>filterColumns\<close>, \<open>sort\<close>, \<open>onlyShowFiltered\<close>, \<open>removeDuplicates\<close>,
  \<open>setRowHeight\<close>, \<open>autofitColumns\<close>, \<open>autofitColumn\<close>) are translated from the
  source. The host primitives they call are not part of the repository; each is
  modelled from the specification and marked as such.

  The source function \<open>sort\<close> is named \<open>sort_column\<close> here, because \<open>sort\<close> is a
  constant of the list library.
\<close>

subsection \<open>Data model\<close>

text \<open>
  A TypeScript \<open>number\<close> that is a column index is an \<open>int\<close>; the row height is a
  \<open>real\<close>. Cell values are texts.
\<close>

type_synonym cell = string

text \<open>A range is a handle on a rectangle of the sheet, in absolute 0-based coordinates.\<close>

record range_ref =
  rowIndex :: nat
  rowCount :: nat
  columnIndex :: nat
  columnCount :: nat

text \<open>The element type of the first argument of \<open>RangeSort.apply\<close>.\<close>

record sortField =
  key :: int
  ascending :: bool

datatype filterOn = FilterOn_values

record filterCriteria =
  filterOn :: filterOn
  criteriaValues :: "string list"

text \<open>
  The worksheet: its cell contents, the used range, the display attributes the script
  sets, and the single autofilter (its range, and the criterion of at most one column,
  given as the column's index relative to that range).
\<close>

record worksheet =
  cells :: "nat \<Rightarrow> nat \<Rightarrow> cell"
  usedRange :: range_ref
  columnHidden :: "nat \<Rightarrow> bool"
  rowHeight :: "nat \<Rightarrow> real"
  columnWidth :: "nat \<Rightarrow> nat"
  autoFilterRange :: "range_ref option"
  autoFilterCriteria :: "(nat \<times> filterCriteria) option"

text \<open>One constructor for each \<open>console.log\<close> of the script, with the values it prints.\<close>

datatype log_line =
  Log_columns_hidden string
  | Log_filters_applied string
  | Log_table_sorted int
  | Log_only_show_filtered int "string list"
  | Log_duplicates_removed
  | Log_row_height real
  | Log_autofit_columns "string list"
  | Log_autofit_column string

text \<open>
  The errors of a run. The first three are the \<open>throw\<close> statements of the script, in
  source order (\<open>Error\<close> in \<open>main\<close>, \<open>RangeError\<close> in \<open>sort\<close>, \<open>RangeError\<close> in
  \<open>setRowHeight\<close>), each with the value its message prints. \<open>HostFailure\<close> is
  every other exception: one that the host layer raises (or the runtime, when a call is
  made on a range that does not exist) and the script lets through.
\<close>

datatype error =
  NotXlsxFile
  | ColumnIndexNegative int
  | RowHeightNonPositive real
  | HostFailure

text \<open>
  Everything a run can observe or change: the workbook's name, its active worksheet,
  the store of \<open>number[]\<close> objects (arrays are passed by reference, and
  \<open>removeDuplicates\<close> writes into its argument), and the console.
\<close>

record world =
  workbookName :: string
  sheet :: worksheet
  arrays :: "nat \<Rightarrow> int list"
  nextRef :: nat
  console :: "log_line list"

text \<open>
  A procedure either completes or throws. The world is mutated in place, so a thrown
  error carries the world as it is at the \<open>throw\<close>.
\<close>

datatype outcome = Done world | Raised error world

fun andThen :: "outcome \<Rightarrow> (world \<Rightarrow> outcome) \<Rightarrow> outcome" where
  "andThen (Done w) f = f w"
| "andThen (Raised e w) f = Raised e w"

fun finalWorld :: "outcome \<Rightarrow> world" where
  "finalWorld (Done w) = w"
| "finalWorld (Raised e w) = w"

definition console_log :: "log_line \<Rightarrow> world \<Rightarrow> world" where
  "console_log l w = w\<lparr>console := console w @ [l]\<rparr>"

definition newArray :: "world \<Rightarrow> int list \<Rightarrow> world \<times> nat" where
  "newArray w xs =
     (w\<lparr>arrays := (arrays w)(nextRef w := xs), nextRef := Suc (nextRef w)\<rparr>, nextRef w)"

subsection \<open>Strings\<close>

definition endsWith :: "string \<Rightarrow> string \<Rightarrow> bool" where
  "endsWith s searchString \<longleftrightarrow>
     length searchString \<le> length s
     \<and> drop (length s - length searchString) s = searchString"

definition toLowerCase_char :: "char \<Rightarrow> char" where
  "toLowerCase_char c =
     (let n = (of_char c :: nat) in if 65 \<le> n \<and> n \<le> 90 then char_of (n + 32) else c)"

definition toLowerCase :: "string \<Rightarrow> string" where
  "toLowerCase s = map toLowerCase_char s"

subsection \<open>The host\<close>

text \<open>
  Modelled from the spec: the host's address parser behind \<open>Worksheet.getRange\<close>. The
  script only passes whole-column addresses (\<open>A:C\<close>, \<open>D:O\<close>, \<open>E:E\<close>), and the model
  covers exactly these: one or more capital letters, a colon, one or more capital
  letters. Every other string is invalid range syntax, which the host rejects
  (\<open>None\<close>). A whole-column range spans all \<open>maxRows\<close> rows of the sheet.
\<close>

definition maxRows :: nat where
  "maxRows = 1048576"

fun columnLetters :: "string \<Rightarrow> nat \<Rightarrow> nat option" where
  "columnLetters [] acc = Some acc"
| "columnLetters (c # cs) acc =
     (let n = (of_char c :: nat) in
      if 65 \<le> n \<and> n \<le> 90 then columnLetters cs (acc * 26 + (n - 64)) else None)"

definition columnOfLetters :: "string \<Rightarrow> nat option" where
  "columnOfLetters s =
     (if s = [] then None else map_option (\<lambda>n. n - 1) (columnLetters s 0))"

definition getRange :: "string \<Rightarrow> range_ref option" where
  "getRange address =
     (let first = takeWhile (\<lambda>c. c \<noteq> CHR '':'') address;
          rest = dropWhile (\<lambda>c. c \<noteq> CHR '':'') address
      in if rest = [] then None
         else (case (columnOfLetters first, columnOfLetters (tl rest)) of
                 (Some a, Some b) \<Rightarrow>
                   Some \<lparr>rowIndex = 0, rowCount = maxRows,
                         columnIndex = min a b, columnCount = Suc (max a b - min a b)\<rparr>
               | _ \<Rightarrow> None))"

text \<open>The range of the single column \<open>j\<close>, as \<open>getRange\<close> returns it.\<close>

definition wholeColumn :: "nat \<Rightarrow> range_ref" where
  "wholeColumn j = \<lparr>rowIndex = 0, rowCount = maxRows, columnIndex = j, columnCount = 1\<rparr>"

text \<open>
  Modelled from the spec: the rows a range operation works on are the rows of the range
  that lie in the used range (a whole-column range has no data below the used range).
  \<open>firstRow\<close> is the first of them, \<open>endRow\<close> is one past the last.
\<close>

definition firstRow :: "worksheet \<Rightarrow> range_ref \<Rightarrow> nat" where
  "firstRow ws r = max (rowIndex r) (rowIndex (usedRange ws))"

definition endRow :: "worksheet \<Rightarrow> range_ref \<Rightarrow> nat" where
  "endRow ws r =
     min (rowIndex r + rowCount r) (rowIndex (usedRange ws) + rowCount (usedRange ws))"

definition getValues :: "worksheet \<Rightarrow> range_ref \<Rightarrow> cell list list" where
  "getValues ws r =
     map (\<lambda>a. map (\<lambda>j. cells ws a j) [columnIndex r ..< columnIndex r + columnCount r])
       [firstRow ws r ..< endRow ws r]"

definition setValues :: "worksheet \<Rightarrow> range_ref \<Rightarrow> cell list list \<Rightarrow> worksheet" where
  "setValues ws r rows =
     ws\<lparr>cells := (\<lambda>a j.
        if firstRow ws r \<le> a \<and> a < endRow ws r
           \<and> columnIndex r \<le> j \<and> j < columnIndex r + columnCount r
        then rows ! (a - firstRow ws r) ! (j - columnIndex r)
        else cells ws a j)\<rparr>"

text \<open>
  Modelled from the spec: \<open>Range.setColumnHidden\<close> marks the columns of the range hidden
  (a display attribute, not a delete).
\<close>

definition Range_setColumnHidden :: "worksheet \<Rightarrow> range_ref \<Rightarrow> bool \<Rightarrow> worksheet" where
  "Range_setColumnHidden ws r b =
     ws\<lparr>columnHidden := (\<lambda>j.
        if columnIndex r \<le> j \<and> j < columnIndex r + columnCount r then b
        else columnHidden ws j)\<rparr>"

text \<open>
  Modelled from the spec: \<open>AutoFilter.apply(range, columnIndex?, criteria?)\<close> establishes
  or replaces the worksheet's single autofilter, scoping it to the range; prior
  column criteria are cleared, and the criterion passed (if any) is the only one
  active afterwards. The host rejects a missing range and a column index outside the
  range.
\<close>

definition AutoFilter_apply ::
  "worksheet \<Rightarrow> range_ref option \<Rightarrow> (int \<times> filterCriteria) option \<Rightarrow> worksheet option" where
  "AutoFilter_apply ws rangeArg criterion =
     (case rangeArg of
        None \<Rightarrow> None
      | Some r \<Rightarrow>
          (case criterion of
             None \<Rightarrow> Some (ws\<lparr>autoFilterRange := Some r, autoFilterCriteria := None\<rparr>)
           | Some (k, c) \<Rightarrow>
               if 0 \<le> k \<and> k < int (columnCount r)
               then Some (ws\<lparr>autoFilterRange := Some r,
                              autoFilterCriteria := Some (nat k, c)\<rparr>)
               else None))"

text \<open>
  Modelled from the spec: the autofilter hides the rows that do not match the active
  criterion, without deleting data. The first row of the filter range is the header
  row holding the filter control; it is never filtered. Rows outside the filter range
  are not affected.
\<close>

definition rowVisible :: "worksheet \<Rightarrow> nat \<Rightarrow> bool" where
  "rowVisible ws a =
     (case autoFilterRange ws of
        None \<Rightarrow> True
      | Some r \<Rightarrow>
          (case autoFilterCriteria ws of
             None \<Rightarrow> True
           | Some (k, c) \<Rightarrow>
               if firstRow ws r < a \<and> a < endRow ws r
               then cells ws a (columnIndex r + k) \<in> set (criteriaValues c)
               else True))"

text \<open>
  Modelled from the spec: \<open>RangeSort.apply(fields, matchCase, hasHeaders)\<close> sorts the
  rows of the range by the given keys (column indices relative to the range), the
  first field being the most significant. Without \<open>matchCase\<close> the comparison is
  case-insensitive. With \<open>hasHeaders\<close> the first row is excluded from sorting and
  kept in place. Only the cells inside the range move. The spec leaves the order of
  ties open; the model sorts stably. The host rejects a key outside the range.
\<close>

definition sortRows :: "sortField \<Rightarrow> bool \<Rightarrow> cell list list \<Rightarrow> cell list list" where
  "sortRows f matchCase rows =
     (let k = (\<lambda>row. if matchCase then row ! nat (key f) else toLowerCase (row ! nat (key f)))
      in if ascending f then sort_key k rows else rev (sort_key k (rev rows)))"

definition RangeSort_apply ::
  "worksheet \<Rightarrow> range_ref \<Rightarrow> sortField list \<Rightarrow> bool \<Rightarrow> bool \<Rightarrow> worksheet option" where
  "RangeSort_apply ws r sortFields matchCase hasHeaders =
     (if list_all (\<lambda>f. 0 \<le> key f \<and> key f < int (columnCount r)) sortFields
      then
        (let rows = getValues ws r;
             sortAll = (\<lambda>body. foldr (\<lambda>f. sortRows f matchCase) sortFields body)
         in Some (setValues ws r
              (if hasHeaders
               then (case rows of [] \<Rightarrow> [] | header # body \<Rightarrow> header # sortAll body)
               else sortAll rows)))
      else None)"

text \<open>
  Modelled from the spec: \<open>Range.removeDuplicates(columns, includesHeader)\<close>. Two rows
  are duplicates iff every value in the given columns (indices relative to the range)
  matches, by exact equality. Every duplicate after the first occurrence is deleted;
  the rows below move up, so the surviving rows keep their order. With
  \<open>includesHeader\<close> the first row is excluded from comparison and from removal. When
  the range spans the used range to its last row and over its full width, the rows
  vacated at the bottom leave the used range. The host rejects a column index outside
  the range.
\<close>

fun keepFirst :: "'k list \<Rightarrow> ('r \<Rightarrow> 'k) \<Rightarrow> 'r list \<Rightarrow> 'r list" where
  "keepFirst seen kf [] = []"
| "keepFirst seen kf (row # rows) =
     (if kf row \<in> set seen then keepFirst seen kf rows
      else row # keepFirst (kf row # seen) kf rows)"

definition rowKey :: "int list \<Rightarrow> cell list \<Rightarrow> cell list" where
  "rowKey columns row = map (\<lambda>c. row ! nat c) columns"

definition coversUsedRange :: "worksheet \<Rightarrow> range_ref \<Rightarrow> bool" where
  "coversUsedRange ws r \<longleftrightarrow>
     columnIndex r \<le> columnIndex (usedRange ws)
     \<and> columnIndex (usedRange ws) + columnCount (usedRange ws) \<le> columnIndex r + columnCount r
     \<and> rowIndex r \<le> rowIndex (usedRange ws) + rowCount (usedRange ws)
     \<and> rowIndex (usedRange ws) + rowCount (usedRange ws) \<le> rowIndex r + rowCount r"

definition Range_removeDuplicates ::
  "worksheet \<Rightarrow> range_ref \<Rightarrow> int list \<Rightarrow> bool \<Rightarrow> worksheet option" where
  "Range_removeDuplicates ws r columns includesHeader =
     (if list_all (\<lambda>c. 0 \<le> c \<and> c < int (columnCount r)) columns
      then
        (let rows = getValues ws r;
             kept = (if includesHeader
                     then (case rows of [] \<Rightarrow> []
                           | header # body \<Rightarrow> header # keepFirst [] (rowKey columns) body)
                     else keepFirst [] (rowKey columns) rows);
             removed = length rows - length kept;
             ws' = setValues ws r (kept @ replicate removed (replicate (columnCount r) []))
         in Some (if coversUsedRange ws r
                  then ws'\<lparr>usedRange := (usedRange ws)\<lparr>rowCount := rowCount (usedRange ws) - removed\<rparr>\<rparr>
                  else ws'))
      else None)"

text \<open>
  Modelled from the spec: \<open>RangeFormat.setRowHeight\<close> sets every row of the range to
  exactly the given height, overwriting any earlier height.
\<close>

definition RangeFormat_setRowHeight :: "worksheet \<Rightarrow> range_ref \<Rightarrow> real \<Rightarrow> worksheet" where
  "RangeFormat_setRowHeight ws r h =
     ws\<lparr>rowHeight := (\<lambda>a.
        if rowIndex r \<le> a \<and> a < rowIndex r + rowCount r then h else rowHeight ws a)\<rparr>"

text \<open>
  Modelled from the spec: \<open>RangeFormat.autofitColumns\<close> sets the width of each column
  of the range to the widest visible content of that column (the length of the
  longest text in a visible row of the range; 0 when there is none).
\<close>

definition fitWidth :: "worksheet \<Rightarrow> range_ref \<Rightarrow> nat \<Rightarrow> nat" where
  "fitWidth ws r j =
     foldr max
       (map (\<lambda>a. length (cells ws a j)) (filter (rowVisible ws) [firstRow ws r ..< endRow ws r]))
       0"

definition RangeFormat_autofitColumns :: "worksheet \<Rightarrow> range_ref \<Rightarrow> worksheet" where
  "RangeFormat_autofitColumns ws r =
     ws\<lparr>columnWidth := (\<lambda>j.
        if columnIndex r \<le> j \<and> j < columnIndex r + columnCount r then fitWidth ws r j
        else columnWidth ws j)\<rparr>"

subsection \<open>The procedures of the script\<close>

text \<open>
  Each procedure takes the world and returns an outcome. The \<open>worksheet\<close> argument of
  the source is the handle of the workbook's active worksheet, which is \<open>sheet w\<close>.
  A host call that is rejected raises \<open>HostFailure\<close> at that point.
\<close>

definition hideColumns :: "world \<Rightarrow> string \<Rightarrow> outcome" where
  "hideColumns w columnsTobeHidden =
     (case getRange columnsTobeHidden of
        None \<Rightarrow> Raised HostFailure w
      | Some r \<Rightarrow>
          Done (console_log (Log_columns_hidden columnsTobeHidden)
                  (w\<lparr>sheet := Range_setColumnHidden (sheet w) r True\<rparr>)))"

definition filterColumns :: "world \<Rightarrow> string \<Rightarrow> outcome" where
  "filterColumns w columnsTobeFiltered =
     (case getRange columnsTobeFiltered of
        None \<Rightarrow> Raised HostFailure w
      | Some r \<Rightarrow>
          (case AutoFilter_apply (sheet w) (Some r) None of
             None \<Rightarrow> Raised HostFailure w
           | Some ws \<Rightarrow>
               Done (console_log (Log_filters_applied columnsTobeFiltered) (w\<lparr>sheet := ws\<rparr>))))"

definition sort_column :: "world \<Rightarrow> int \<Rightarrow> outcome" where
  "sort_column w columnIndex' =
     (if columnIndex' < 0 then Raised (ColumnIndexNegative columnIndex') w
      else
        (case autoFilterRange (sheet w) of
           None \<Rightarrow> Raised HostFailure w
         | Some filterableRange \<Rightarrow>
             (case RangeSort_apply (sheet w) filterableRange
                     [\<lparr>key = columnIndex' - int (columnIndex filterableRange),
                       ascending = True\<rparr>]
                     False True of
                None \<Rightarrow> Raised HostFailure w
              | Some ws \<Rightarrow> Done (console_log (Log_table_sorted columnIndex') (w\<lparr>sheet := ws\<rparr>)))))"

definition onlyShowFiltered :: "world \<Rightarrow> int \<Rightarrow> string list \<Rightarrow> outcome" where
  "onlyShowFiltered w columnIndex' valuesTobeShown =
     (case AutoFilter_apply (sheet w) (autoFilterRange (sheet w))
             (Some (0, \<lparr>filterOn = FilterOn_values, criteriaValues = valuesTobeShown\<rparr>)) of
        None \<Rightarrow> Raised HostFailure w
      | Some ws \<Rightarrow>
          Done (console_log (Log_only_show_filtered columnIndex' valuesTobeShown) (w\<lparr>sheet := ws\<rparr>)))"

text \<open>
  The \<open>for\<close> loop of \<open>removeDuplicates\<close>: it writes into the array that the caller
  passed, element by element. \<open>consideredColumns\<close> is the reference of that array in
  the store.
\<close>

function translateLoop :: "world \<Rightarrow> nat \<Rightarrow> range_ref \<Rightarrow> nat \<Rightarrow> world" where
  "translateLoop w consideredColumns used i =
     (if i < length (arrays w consideredColumns)
      then translateLoop
             (w\<lparr>arrays := (arrays w)(consideredColumns :=
                  (arrays w consideredColumns)
                    [i := arrays w consideredColumns ! i - int (columnIndex used)])\<rparr>)
             consideredColumns used (Suc i)
      else w)"
  by pat_completeness auto
termination
  by (relation "measure (\<lambda>(w, r, u, i). length (arrays w r) - i)") auto

definition removeDuplicates :: "world \<Rightarrow> nat \<Rightarrow> outcome" where
  "removeDuplicates w consideredColumns =
     (let used = usedRange (sheet w);
          w1 = translateLoop w consideredColumns used 0
      in case Range_removeDuplicates (sheet w1) used (arrays w1 consideredColumns) True of
           None \<Rightarrow> Raised HostFailure w1
         | Some ws \<Rightarrow> Done (console_log Log_duplicates_removed (w1\<lparr>sheet := ws\<rparr>)))"

definition setRowHeight :: "world \<Rightarrow> real \<Rightarrow> outcome" where
  "setRowHeight w rowHeight' =
     (if rowHeight' \<le> 0 then Raised (RowHeightNonPositive rowHeight') w
      else
        Done (console_log (Log_row_height rowHeight')
                (w\<lparr>sheet := RangeFormat_setRowHeight (sheet w) (usedRange (sheet w)) rowHeight'\<rparr>)))"

definition autofitColumn :: "world \<Rightarrow> string \<Rightarrow> outcome" where
  "autofitColumn w column =
     (case getRange (column @ '':'' @ column) of
        None \<Rightarrow> Raised HostFailure w
      | Some r \<Rightarrow>
          Done (console_log (Log_autofit_column column)
                  (w\<lparr>sheet := RangeFormat_autofitColumns (sheet w) r\<rparr>)))"

fun autofitEach :: "world \<Rightarrow> string list \<Rightarrow> outcome" where
  "autofitEach w [] = Done w"
| "autofitEach w (columnTobeAutofitted # rest) =
     andThen (autofitColumn w columnTobeAutofitted) (\<lambda>w. autofitEach w rest)"

definition autofitColumns :: "world \<Rightarrow> string list \<Rightarrow> outcome" where
  "autofitColumns w columnsTobeAutofitted =
     andThen (autofitEach w columnsTobeAutofitted)
       (\<lambda>w. Done (console_log (Log_autofit_columns columnsTobeAutofitted) w))"

subsection \<open>The entry point\<close>

definition COLUMNS_TOBE_HIDDEN :: string where
  "COLUMNS_TOBE_HIDDEN = ''A:C''"

definition COLUMNS_TOBE_FILTERED :: string where
  "COLUMNS_TOBE_FILTERED = ''D:O''"

definition RISK_COLUMN :: int where
  "RISK_COLUMN = 3"

definition DUPLICATES_CONSIDERED_COLUMNS :: "int list" where
  "DUPLICATES_CONSIDERED_COLUMNS = [3, 4, 5, 6, 7, 8, 9, 10, 11, 12, 13, 14]"

definition UNIFIED_ROW_HEIGHT :: real where
  "UNIFIED_ROW_HEIGHT = 14"

definition RISK_LEVELS_TOBE_SHOWN :: "string list" where
  "RISK_LEVELS_TOBE_SHOWN = [''Critical'', ''High'', ''Low'', ''Medium'']"

definition COLUMNS_TOBE_AUTOFITTED :: "string list" where
  "COLUMNS_TOBE_AUTOFITTED = [''E'', ''F'', ''I'', ''J'', ''M'']"

text \<open>
  \<open>main\<close> computes \<open>FILENAME\<close> (the name without its extension) before the check; the
  value is used only in the commented-out call of \<open>insertColumn\<close> and has no effect,
  so it is left out. \<open>insertColumn\<close> itself is never called.
\<close>

definition main :: "world \<Rightarrow> outcome" where
  "main w =
     (if \<not> endsWith (workbookName w) ''.xlsx'' then Raised NotXlsxFile w
      else
        andThen (hideColumns w COLUMNS_TOBE_HIDDEN) (\<lambda>w.
        andThen (filterColumns w COLUMNS_TOBE_FILTERED) (\<lambda>w.
        andThen (sort_column w RISK_COLUMN) (\<lambda>w.
        (case newArray w DUPLICATES_CONSIDERED_COLUMNS of
           (w, consideredColumns) \<Rightarrow>
        andThen (removeDuplicates w consideredColumns) (\<lambda>w.
        andThen (setRowHeight w UNIFIED_ROW_HEIGHT) (\<lambda>w.
        andThen (onlyShowFiltered w RISK_COLUMN RISK_LEVELS_TOBE_SHOWN) (\<lambda>w.
        autofitColumns w COLUMNS_TOBE_AUTOFITTED))))))))"

text \<open>
  The statements of \<open>main\<close> as a list of steps, and their execution in order: a step
  that raises ends the run.
\<close>

definition main_steps :: "(world \<Rightarrow> outcome) list" where
  "main_steps =
     [\<lambda>w. if \<not> endsWith (workbookName w) ''.xlsx'' then Raised NotXlsxFile w else Done w,
      \<lambda>w. hideColumns w COLUMNS_TOBE_HIDDEN,
      \<lambda>w. filterColumns w COLUMNS_TOBE_FILTERED,
      \<lambda>w. sort_column w RISK_COLUMN,
      \<lambda>w. (case newArray w DUPLICATES_CONSIDERED_COLUMNS of
              (w, consideredColumns) \<Rightarrow> removeDuplicates w consideredColumns),
      \<lambda>w. setRowHeight w UNIFIED_ROW_HEIGHT,
      \<lambda>w. onlyShowFiltered w RISK_COLUMN RISK_LEVELS_TOBE_SHOWN,
      \<lambda>w. autofitColumns w COLUMNS_TOBE_AUTOFITTED]"

fun runSteps :: "(world \<Rightarrow> outcome) list \<Rightarrow> world \<Rightarrow> outcome" where
  "runSteps [] w = Done w"
| "runSteps (step # steps) w = andThen (step w) (runSteps steps)"

subsection \<open>A small worksheet to run the procedures on\<close>

text \<open>
  Columns D, E and F of a scan report: a header row and four findings. The first and
  the last finding are equal, one finding is informational, and one device name starts
  with a capital letter.
\<close>

definition exampleRows :: "cell list list" where
  "exampleRows =
     [[''Risk'', ''Device'', ''Host''],
      [''Medium'', ''fw'', ''h1''],
      [''Info'', ''Gw'', ''h3''],
      [''Critical'', ''db'', ''h2''],
      [''Medium'', ''fw'', ''h1'']]"

definition exampleSheet :: worksheet where
  "exampleSheet =
     \<lparr>cells = (\<lambda>a j. if a < 5 \<and> 3 \<le> j \<and> j < 6 then exampleRows ! a ! (j - 3) else []),
      usedRange = \<lparr>rowIndex = 0, rowCount = 5, columnIndex = 3, columnCount = 3\<rparr>,
      columnHidden = (\<lambda>j. False),
      rowHeight = (\<lambda>a. 15),
      columnWidth = (\<lambda>j. 8),
      autoFilterRange = None,
      autoFilterCriteria = None\<rparr>"

definition exampleWorld :: "string \<Rightarrow> world" where
  "exampleWorld name =
     \<lparr>workbookName = name, sheet = exampleSheet, arrays = (\<lambda>r. []), nextRef = 0,
      console = []\<rparr>"

text \<open>The same world after a filter control has been put on columns D to F.\<close>

definition exampleFilterRange :: range_ref where
  "exampleFilterRange = \<lparr>rowIndex = 0, rowCount = maxRows, columnIndex = 3, columnCount = 3\<rparr>"

definition exampleFiltered :: world where
  "exampleFiltered =
     (exampleWorld ''scan.xlsx'')
       \<lparr>sheet := exampleSheet\<lparr>autoFilterRange := Some exampleFilterRange\<rparr>\<rparr>"

text \<open>The same world with an array of considered columns (D, E, F) at reference 0.\<close>

definition exampleWithColumns :: world where
  "exampleWithColumns = fst (newArray (exampleWorld ''scan.xlsx'') [3, 4, 5])"

text \<open>
  The same world after a filter control has been put on columns E and F only: column D
  (index 3) is outside the range of the autofilter.
\<close>

definition exampleFilteredEF :: world where
  "exampleFilteredEF =
     (exampleWorld ''scan.xlsx'')
       \<lparr>sheet := exampleSheet\<lparr>autoFilterRange :=
          Some \<lparr>rowIndex = 0, rowCount = maxRows, columnIndex = 4, columnCount = 2\<rparr>\<rparr>\<rparr>"



section \<open>Properties\<close>

subsection \<open>Helper facts\<close>

lemma translateLoop_eq:
  "translateLoop w r u i =
     w\<lparr>arrays := (arrays w)(r :=
        take i (arrays w r) @ map (\<lambda>c. c - int (columnIndex u)) (drop i (arrays w r)))\<rparr>"
proof (induction w r u i rule: translateLoop.induct)
  case (1 w r u i)
  let ?xs = "arrays w r"
  let ?f = "\<lambda>c. c - int (columnIndex u)"
  show ?case
  proof (cases "i < length ?xs")
    case True
    let ?w' = "w\<lparr>arrays := (arrays w)(r := ?xs[i := ?xs ! i - int (columnIndex u)])\<rparr>"
    have d: "drop i ?xs = ?xs ! i # drop (Suc i) ?xs"
      using True by (simp add: Cons_nth_drop_Suc)
    have t: "take (Suc i) (?xs[i := v]) = take i ?xs @ [v]" for v
      using True by (simp add: take_Suc_conv_app_nth)
    have "translateLoop w r u i = translateLoop ?w' r u (Suc i)"
      using True by (subst translateLoop.simps) (simp del: translateLoop.simps)
    also have "\<dots> = ?w'\<lparr>arrays := (arrays ?w')(r := take (Suc i) (arrays ?w' r)
                   @ map ?f (drop (Suc i) (arrays ?w' r)))\<rparr>"
      using True by (rule "1.IH")
    also have "\<dots> = w\<lparr>arrays := (arrays w)(r := take i ?xs @ map ?f (drop i ?xs))\<rparr>"
      by (simp add: t d)
    finally show ?thesis .
  next
    case False
    then show ?thesis by (subst translateLoop.simps) (simp del: translateLoop.simps)
  qed
qed

lemma translateLoop_0:
  "translateLoop w r u 0 =
     w\<lparr>arrays := (arrays w)(r := map (\<lambda>c. c - int (columnIndex u)) (arrays w r))\<rparr>"
  by (simp add: translateLoop_eq del: translateLoop.simps)

lemma arrays_console_log [simp]: "arrays (console_log l w) = arrays w"
  by (simp add: console_log_def)

lemma sheet_console_log [simp]: "sheet (console_log l w) = sheet w"
  by (simp add: console_log_def)

lemma usedRange_setValues [simp]: "usedRange (setValues ws r rows) = usedRange ws"
  by (simp add: setValues_def)

lemma firstRow_setValues [simp]: "firstRow (setValues ws r rows) r' = firstRow ws r'"
  by (simp add: firstRow_def)

lemma endRow_setValues [simp]: "endRow (setValues ws r rows) r' = endRow ws r'"
  by (simp add: endRow_def)

lemma cells_setValues:
  "cells (setValues ws r rows) a j =
     (if firstRow ws r \<le> a \<and> a < endRow ws r
         \<and> columnIndex r \<le> j \<and> j < columnIndex r + columnCount r
      then rows ! (a - firstRow ws r) ! (j - columnIndex r)
      else cells ws a j)"
  by (simp add: setValues_def)

lemma length_getValues: "length (getValues ws r) = endRow ws r - firstRow ws r"
  by (simp add: getValues_def)

lemma length_row_getValues: "row \<in> set (getValues ws r) \<Longrightarrow> length row = columnCount r"
  by (auto simp: getValues_def)

lemma getValues_setValues:
  assumes len: "length rows = endRow ws r - firstRow ws r"
    and wid: "\<And>row. row \<in> set rows \<Longrightarrow> length row = columnCount r"
  shows "getValues (setValues ws r rows) r = rows"
proof (rule nth_equalityI)
  show "length (getValues (setValues ws r rows) r) = length rows"
    by (simp add: length_getValues len)
next
  fix i assume "i < length (getValues (setValues ws r rows) r)"
  then have i: "i < endRow ws r - firstRow ws r"
    by (simp add: length_getValues)
  then have w: "length (rows ! i) = columnCount r"
    using wid len by simp
  have "getValues (setValues ws r rows) r ! i
      = map (\<lambda>j. rows ! i ! (j - columnIndex r)) [columnIndex r ..< columnIndex r + columnCount r]"
    using i by (simp add: getValues_def cells_setValues)
  also have "\<dots> = rows ! i"
    using w by (intro nth_equalityI) simp_all
  finally show "getValues (setValues ws r rows) r ! i = rows ! i" .
qed

lemma column_of_getValues:
  assumes "j < columnCount r"
  shows "map (\<lambda>row. f (row ! j)) (getValues ws r)
           = map (\<lambda>a. f (cells ws a (columnIndex r + j))) [firstRow ws r ..< endRow ws r]"
  using assms by (simp add: getValues_def)

subsection \<open>The file-kind check of \<open>main\<close>\<close>

text \<open>
  Claim C3. When the workbook's name does not end in \<open>.xlsx\<close>, \<open>main\<close> raises the
  file-kind error and the world it leaves is the world it was given: no step of the
  pipeline has run, nothing on the worksheet (nor in the store, nor on the console) has
  changed.
\<close>

theorem main_rejects_other_file_kinds:
  assumes "\<not> endsWith (workbookName w) ''.xlsx''"
  shows "main w = Raised NotXlsxFile w"
  using assms by (simp add: main_def)

theorem main_rejects_other_file_kinds_witness:
  "\<not> endsWith (workbookName (exampleWorld ''scan.csv'')) ''.xlsx''
   \<and> main (exampleWorld ''scan.csv'') = Raised NotXlsxFile (exampleWorld ''scan.csv'')"
proof -
  have h: "\<not> endsWith (workbookName (exampleWorld ''scan.csv'')) ''.xlsx''"
    by (simp add: exampleWorld_def endsWith_def)
  show ?thesis
    by (rule conjI [OF h main_rejects_other_file_kinds [OF h]])
qed

subsection \<open>Sorting with a negative index\<close>

text \<open>
  Claim C5. For a negative column index, \<open>sort\<close> raises its range error (which carries
  the index) and leaves the world, and so the worksheet, exactly as it was.
\<close>

theorem sort_column_negative_index:
  assumes "c < 0"
  shows "sort_column w c = Raised (ColumnIndexNegative c) w"
  using assms by (simp add: sort_column_def)

theorem sort_column_negative_index_witness:
  "(- 1 :: int) < 0
   \<and> sort_column (exampleWorld ''scan.xlsx'') (- 1)
       = Raised (ColumnIndexNegative (- 1)) (exampleWorld ''scan.xlsx'')"
proof -
  have h: "(- 1 :: int) < 0" by simp
  show ?thesis
    by (rule conjI [OF h sort_column_negative_index [OF h]])
qed

subsection \<open>Row heights\<close>

text \<open>
  Claim C6. For a positive height \<open>h\<close>, \<open>setRowHeight\<close> completes and every row of the
  used range has height exactly \<open>h\<close> afterwards. For a height that is zero or negative it
  raises its validation error and leaves the world as it was, so no row is changed.
\<close>

theorem setRowHeight_normalizes:
  "(0 < h \<longrightarrow>
      (\<exists>w'. setRowHeight w h = Done w'
         \<and> (\<forall>a. rowIndex (usedRange (sheet w)) \<le> a
                \<and> a < rowIndex (usedRange (sheet w)) + rowCount (usedRange (sheet w))
                \<longrightarrow> rowHeight (sheet w') a = h)))
   \<and> (h \<le> 0 \<longrightarrow> setRowHeight w h = Raised (RowHeightNonPositive h) w)"
  by (simp add: setRowHeight_def RangeFormat_setRowHeight_def)

theorem setRowHeight_normalizes_witness:
  "(\<exists>w'. setRowHeight (exampleWorld ''scan.xlsx'') 14 = Done w'
      \<and> rowHeight (sheet w') 0 = 14 \<and> rowHeight (sheet w') 4 = 14)
   \<and> setRowHeight (exampleWorld ''scan.xlsx'') 0
       = Raised (RowHeightNonPositive 0) (exampleWorld ''scan.xlsx'')
   \<and> setRowHeight (exampleWorld ''scan.xlsx'') (- 1)
       = Raised (RowHeightNonPositive (- 1)) (exampleWorld ''scan.xlsx'')"
proof -
  let ?w = "exampleWorld ''scan.xlsx''"
  have u: "rowIndex (usedRange (sheet ?w)) = 0" "rowCount (usedRange (sheet ?w)) = 5"
    by (simp_all add: exampleWorld_def exampleSheet_def)
  from setRowHeight_normalizes [of 14 ?w]
  obtain w' where w': "setRowHeight ?w 14 = Done w'"
    and all: "\<forall>a. 0 \<le> a \<and> a < 5 \<longrightarrow> rowHeight (sheet w') a = 14"
    unfolding u by auto
  from all have "rowHeight (sheet w') 0 = 14" "rowHeight (sheet w') 4 = 14"
    by simp_all
  with w' have pos: "\<exists>w'. setRowHeight ?w 14 = Done w'
      \<and> rowHeight (sheet w') 0 = 14 \<and> rowHeight (sheet w') 4 = 14"
    by blast
  have zero: "setRowHeight ?w 0 = Raised (RowHeightNonPositive 0) ?w"
    using setRowHeight_normalizes [of 0 ?w] by simp
  have neg: "setRowHeight ?w (- 1) = Raised (RowHeightNonPositive (- 1)) ?w"
    using setRowHeight_normalizes [of "- 1" ?w] by simp
  from pos zero neg show ?thesis by blast
qed

subsection \<open>The argument array of \<open>removeDuplicates\<close>\<close>

text \<open>
  Claim C7. \<open>removeDuplicates\<close> writes into the array it is given: in the world it
  leaves (whether the host call that follows succeeds or is rejected), the array at the
  caller's reference holds each original element minus the column offset of the used
  range. No new array is made (\<open>nextRef\<close> has not moved), and every other array of the
  store is as it was.
\<close>

theorem removeDuplicates_translates_in_place:
  "arrays (finalWorld (removeDuplicates w consideredColumns)) consideredColumns
     = map (\<lambda>c. c - int (columnIndex (usedRange (sheet w)))) (arrays w consideredColumns)
   \<and> nextRef (finalWorld (removeDuplicates w consideredColumns)) = nextRef w
   \<and> (\<forall>r. r \<noteq> consideredColumns \<longrightarrow>
          arrays (finalWorld (removeDuplicates w consideredColumns)) r = arrays w r)"
  by (simp add: removeDuplicates_def Let_def translateLoop_0 console_log_def
        split: option.split del: translateLoop.simps)

theorem removeDuplicates_translates_in_place_witness:
  "arrays (finalWorld (removeDuplicates exampleWithColumns 0)) 0 = [0, 1, 2]
   \<and> nextRef (finalWorld (removeDuplicates exampleWithColumns 0)) = 1"
proof -
  have "map (\<lambda>c. c - int (columnIndex (usedRange (sheet exampleWithColumns))))
          (arrays exampleWithColumns 0) = [0, 1, 2]"
    "nextRef exampleWithColumns = 1"
    by (simp_all add: exampleWithColumns_def newArray_def exampleWorld_def exampleSheet_def)
  with removeDuplicates_translates_in_place [of exampleWithColumns 0]
  show ?thesis by simp
qed

subsection \<open>Sorting by a column\<close>

lemma sort_column_Done:
  assumes "sort_column w c = Done w'"
  obtains r ws where "0 \<le> c" "autoFilterRange (sheet w) = Some r"
    "RangeSort_apply (sheet w) r [\<lparr>key = c - int (columnIndex r), ascending = True\<rparr>] False True
       = Some ws"
    "w' = console_log (Log_table_sorted c) (w\<lparr>sheet := ws\<rparr>)"
  using assms by (auto simp: sort_column_def split: if_splits option.splits)

lemma RangeSort_apply_single:
  assumes "RangeSort_apply ws r [\<lparr>key = k, ascending = True\<rparr>] False True = Some ws'"
  shows "0 \<le> k \<and> k < int (columnCount r)
     \<and> ws' = setValues ws r
         (case getValues ws r of [] \<Rightarrow> []
          | header # body \<Rightarrow> header # sort_key (\<lambda>row. toLowerCase (row ! nat k)) body)"
  using assms
  by (auto simp: RangeSort_apply_def sortRows_def Let_def split: if_splits list.splits)

lemma getValues_sorted_rows:
  fixes ws r kf
  defines "rows' \<equiv> (case getValues ws r of [] \<Rightarrow> [] | header # body \<Rightarrow> header # sort_key kf body)"
  shows "getValues (setValues ws r rows') r = rows'"
proof (rule getValues_setValues)
  show "length rows' = endRow ws r - firstRow ws r"
    by (simp add: rows'_def length_getValues [symmetric] split: list.split)
next
  fix row assume "row \<in> set rows'"
  then have "row \<in> set (getValues ws r)"
    by (cases "getValues ws r") (auto simp: rows'_def)
  then show "length row = columnCount r"
    by (rule length_row_getValues)
qed

lemma sort_column_completes:
  assumes "0 \<le> c" and "autoFilterRange (sheet w) = Some r"
    and "int (columnIndex r) \<le> c" and "c < int (columnIndex r + columnCount r)"
  shows "\<exists>w'. sort_column w c = Done w'"
  using assms by (simp add: sort_column_def RangeSort_apply_def Let_def)

lemma exampleFiltered_rows:
  "getValues (sheet exampleFiltered) exampleFilterRange = exampleRows"
  by (simp add: getValues_def exampleFiltered_def exampleFilterRange_def exampleSheet_def
      firstRow_def endRow_def maxRows_def exampleRows_def upt_rec)

lemma example_sorted_by_device:
  "sort_key (\<lambda>row. toLowerCase (row ! nat (4 - int 3))) (tl exampleRows) =
     [[''Critical'', ''db'', ''h2''], [''Medium'', ''fw'', ''h1''],
      [''Medium'', ''fw'', ''h1''], [''Info'', ''Gw'', ''h3'']]"
  by code_simp

lemma sort_column_sorted:
  assumes "0 \<le> c" and "sort_column w c = Done w'"
  shows "\<exists>r. autoFilterRange (sheet w) = Some r
     \<and> RangeSort_apply (sheet w) r
           [\<lparr>key = c - int (columnIndex r), ascending = True\<rparr>] False True = Some (sheet w')
     \<and> getValues (sheet w') r =
         (case getValues (sheet w) r of [] \<Rightarrow> []
          | header # body \<Rightarrow>
              header # sort_key (\<lambda>row. toLowerCase (row ! nat (c - int (columnIndex r)))) body)
     \<and> sorted (map (\<lambda>a. toLowerCase (cells (sheet w') a (nat c)))
                 [Suc (firstRow (sheet w') r) ..< endRow (sheet w') r])"
proof -
  from assms(2) obtain r ws where r: "autoFilterRange (sheet w) = Some r"
    and ap: "RangeSort_apply (sheet w) r [\<lparr>key = c - int (columnIndex r), ascending = True\<rparr>]
               False True = Some ws"
    and w': "w' = console_log (Log_table_sorted c) (w\<lparr>sheet := ws\<rparr>)"
    by (rule sort_column_Done)
  let ?k = "c - int (columnIndex r)"
  let ?kf = "\<lambda>row. toLowerCase (row ! nat ?k)"
  let ?rows' = "case getValues (sheet w) r of [] \<Rightarrow> []
          | header # body \<Rightarrow> header # sort_key ?kf body"
  from RangeSort_apply_single [OF ap]
  have k: "0 \<le> ?k" "?k < int (columnCount r)" and ws: "ws = setValues (sheet w) r ?rows'"
    by simp_all
  have sh: "sheet w' = ws" by (simp add: w')
  have gv: "getValues ws r = ?rows'"
    unfolding ws by (rule getValues_sorted_rows)
  have kn: "nat ?k < columnCount r" and cn: "nat c = columnIndex r + nat ?k"
    using k by simp_all
  let ?col = "\<lambda>a. toLowerCase (cells ws a (nat c))"
  have whole: "map ?col [firstRow ws r ..< endRow ws r] = map ?kf (getValues ws r)"
    unfolding cn by (rule column_of_getValues [OF kn, symmetric])
  have "map ?col [Suc (firstRow ws r) ..< endRow ws r]
          = map ?col (tl [firstRow ws r ..< endRow ws r])"
    by simp
  also have "\<dots> = tl (map ?col [firstRow ws r ..< endRow ws r])"
    by (rule map_tl)
  also have "\<dots> = tl (map ?kf (getValues ws r))"
    by (rule arg_cong [OF whole])
  also have "\<dots> = map ?kf (tl (getValues ws r))"
    by (rule map_tl [symmetric])
  also have "\<dots> = (case getValues (sheet w) r of [] \<Rightarrow> []
                     | header # body \<Rightarrow> map ?kf (sort_key ?kf body))"
    unfolding gv by (simp split: list.split)
  finally have "sorted (map ?col [Suc (firstRow ws r) ..< endRow ws r])"
    by (simp split: list.split)
  with r ap gv sh show ?thesis by simp
qed

lemma sort_column_outside_filter_range:
  assumes "0 \<le> c" and "autoFilterRange (sheet w) = Some r"
    and "c < int (columnIndex r) \<or> int (columnIndex r + columnCount r) \<le> c"
  shows "sort_column w c = Raised HostFailure w"
  using assms by (auto simp: sort_column_def RangeSort_apply_def)

text \<open>
  Claim C2, as amended. Let \<open>c\<close> be a non-negative absolute column index that is a
  column of the range \<open>r\<close> of the autofilter. Then \<open>sort\<close> completes: it has sorted \<open>r\<close>
  with the single key \<open>c - columnIndex r\<close> (the index relative to that range),
  ascending, without \<open>matchCase\<close>, with the first row as header. The header row stays
  first, the rows below it are the old rows ordered by the lower-cased value of the key
  column, and the values of absolute column \<open>c\<close> in the rows below the header are
  non-decreasing under case-insensitive comparison.
\<close>

theorem sort_column_sorts:
  assumes "0 \<le> c" and "autoFilterRange (sheet w) = Some r"
    and "int (columnIndex r) \<le> c" and "c < int (columnIndex r + columnCount r)"
  shows "\<exists>w'. sort_column w c = Done w'
     \<and> RangeSort_apply (sheet w) r
           [\<lparr>key = c - int (columnIndex r), ascending = True\<rparr>] False True = Some (sheet w')
     \<and> getValues (sheet w') r =
         (case getValues (sheet w) r of [] \<Rightarrow> []
          | header # body \<Rightarrow>
              header # sort_key (\<lambda>row. toLowerCase (row ! nat (c - int (columnIndex r)))) body)
     \<and> sorted (map (\<lambda>a. toLowerCase (cells (sheet w') a (nat c)))
                 [Suc (firstRow (sheet w') r) ..< endRow (sheet w') r])"
proof -
  from sort_column_completes [OF assms] obtain w' where run: "sort_column w c = Done w'" ..
  from sort_column_sorted [OF assms(1) run] assms(2) run show ?thesis
    by auto
qed

theorem sort_column_sorts_witness:
  "(0 :: int) \<le> 4
   \<and> autoFilterRange (sheet exampleFiltered) = Some exampleFilterRange
   \<and> int (columnIndex exampleFilterRange) \<le> 4
   \<and> 4 < int (columnIndex exampleFilterRange + columnCount exampleFilterRange)
   \<and> (\<exists>w'. sort_column exampleFiltered 4 = Done w'
         \<and> getValues (sheet w') exampleFilterRange =
             [[''Risk'', ''Device'', ''Host''],
              [''Critical'', ''db'', ''h2''], [''Medium'', ''fw'', ''h1''],
              [''Medium'', ''fw'', ''h1''], [''Info'', ''Gw'', ''h3'']]
         \<and> sorted (map (\<lambda>a. toLowerCase (cells (sheet w') a 4)) [1 ..< 5]))"
proof -
  have af: "autoFilterRange (sheet exampleFiltered) = Some exampleFilterRange"
    by (simp add: exampleFiltered_def)
  have h: "(0 :: int) \<le> 4" by simp
  have lo: "int (columnIndex exampleFilterRange) \<le> 4"
    and hi: "4 < int (columnIndex exampleFilterRange + columnCount exampleFilterRange)"
    by (simp_all add: exampleFilterRange_def)
  from sort_column_sorts [OF h af lo hi]
  obtain w' where run: "sort_column exampleFiltered 4 = Done w'"
    and gv0: "getValues (sheet w') exampleFilterRange =
         (case getValues (sheet exampleFiltered) exampleFilterRange of [] \<Rightarrow> []
          | header # body \<Rightarrow>
              header # sort_key (\<lambda>row. toLowerCase
                 (row ! nat (4 - int (columnIndex exampleFilterRange)))) body)"
    and so0: "sorted (map (\<lambda>a. toLowerCase (cells (sheet w') a (nat 4)))
                 [Suc (firstRow (sheet w') exampleFilterRange)
                    ..< endRow (sheet w') exampleFilterRange])"
    by blast
  from gv0 so0
  have gv: "getValues (sheet w') exampleFilterRange =
         (case getValues (sheet exampleFiltered) exampleFilterRange of [] \<Rightarrow> []
          | header # body \<Rightarrow>
              header # sort_key (\<lambda>row. toLowerCase
                 (row ! nat (4 - int (columnIndex exampleFilterRange)))) body)"
    and so: "sorted (map (\<lambda>a. toLowerCase (cells (sheet w') a (nat 4)))
                 [Suc (firstRow (sheet w') exampleFilterRange)
                    ..< endRow (sheet w') exampleFilterRange])"
    by auto
  have ci: "columnIndex exampleFilterRange = 3"
    by (simp add: exampleFilterRange_def)
  have rows: "getValues (sheet w') exampleFilterRange =
             [[''Risk'', ''Device'', ''Host''],
              [''Critical'', ''db'', ''h2''], [''Medium'', ''fw'', ''h1''],
              [''Medium'', ''fw'', ''h1''], [''Info'', ''Gw'', ''h3'']]"
    unfolding gv exampleFiltered_rows ci
    using example_sorted_by_device by (simp add: exampleRows_def)
  have ur: "usedRange (sheet w') = usedRange (sheet exampleFiltered)"
    using run af by (auto simp: sort_column_def RangeSort_apply_def Let_def split: option.splits if_splits)
  have "firstRow (sheet w') exampleFilterRange = 0" "endRow (sheet w') exampleFilterRange = 5"
    by (simp_all add: firstRow_def endRow_def ur exampleFiltered_def exampleSheet_def
        exampleFilterRange_def maxRows_def)
  with so have "sorted (map (\<lambda>a. toLowerCase (cells (sheet w') a 4)) [1 ..< 5])"
    by simp
  with h af lo hi run rows show ?thesis by blast
qed

text \<open>
  Claim C2 without the restriction to the columns of the autofilter range does not
  hold. For a non-negative index outside that range, the key that \<open>sort\<close> computes is
  not a column of the range, the call is rejected, and the column stays as it was.
  With the filter on columns E and F, sorting by column D (index 3) raises, and column
  D is still Medium, Info, Critical, Medium.
\<close>

lemma exampleFilteredEF_column_D:
  "map (\<lambda>a. cells (sheet exampleFilteredEF) a 3) [1 ..< 5]
     = [''Medium'', ''Info'', ''Critical'', ''Medium'']"
  by (simp add: exampleFilteredEF_def exampleSheet_def exampleRows_def upt_rec)

lemma example_column_D_unsorted:
  "\<not> sorted (map toLowerCase [''Medium'', ''Info'', ''Critical'', ''Medium''])"
  by code_simp

theorem sort_column_sorts_counterexample:
  "(0 :: int) \<le> 3
   \<and> sort_column exampleFilteredEF 3 = Raised HostFailure exampleFilteredEF
   \<and> \<not> sorted (map (\<lambda>a. toLowerCase
                  (cells (sheet (finalWorld (sort_column exampleFilteredEF 3))) a 3)) [1 ..< 5])"
proof -
  have af: "autoFilterRange (sheet exampleFilteredEF)
              = Some \<lparr>rowIndex = 0, rowCount = maxRows, columnIndex = 4, columnCount = 2\<rparr>"
    by (simp add: exampleFilteredEF_def)
  have run: "sort_column exampleFilteredEF 3 = Raised HostFailure exampleFilteredEF"
    by (rule sort_column_outside_filter_range [OF _ af]) simp_all
  have "map (\<lambda>a. toLowerCase (cells (sheet exampleFilteredEF) a 3)) [1 ..< 5]
          = map toLowerCase (map (\<lambda>a. cells (sheet exampleFilteredEF) a 3) [1 ..< 5])"
    by (simp only: map_map comp_def)
  then have eq: "map (\<lambda>a. toLowerCase (cells (sheet exampleFilteredEF) a 3)) [1 ..< 5]
          = map toLowerCase [''Medium'', ''Info'', ''Critical'', ''Medium'']"
    by (simp only: exampleFilteredEF_column_D)
  have "\<not> sorted (map (\<lambda>a. toLowerCase (cells (sheet exampleFilteredEF) a 3)) [1 ..< 5])"
    unfolding eq by (rule example_column_D_unsorted)
  then show ?thesis
    by (simp add: run)
qed

subsection \<open>Removing duplicate rows\<close>












lemma removeDuplicates_Done:
  assumes "removeDuplicates w r = Done w'"
  shows "\<exists>ws. Range_removeDuplicates (sheet w) (usedRange (sheet w))
            (map (\<lambda>c. c - int (columnIndex (usedRange (sheet w)))) (arrays w r)) True = Some ws
          \<and> sheet w' = ws"
  using assms
  by (auto simp: removeDuplicates_def Let_def translateLoop_0 split: option.splits
        simp del: translateLoop.simps)


lemma removeDuplicates_completes:
  assumes "list_all (\<lambda>c. int (columnIndex (usedRange (sheet w))) \<le> c
              \<and> c < int (columnIndex (usedRange (sheet w)) + columnCount (usedRange (sheet w))))
             (arrays w r)"
  shows "\<exists>w'. removeDuplicates w r = Done w'"
proof -
  have "list_all (\<lambda>c. 0 \<le> c \<and> c < int (columnCount (usedRange (sheet w))))
          (map (\<lambda>c. c - int (columnIndex (usedRange (sheet w)))) (arrays w r))"
    using assms by (auto simp: list_all_iff)
  then show ?thesis
    by (simp add: removeDuplicates_def Let_def translateLoop_0 Range_removeDuplicates_def
          del: translateLoop.simps)
qed










subsection \<open>Restricting the filter to an allow-list\<close>

lemma onlyShowFiltered_Done:
  assumes "autoFilterRange (sheet w) = Some r" and "0 < columnCount r"
  shows "onlyShowFiltered w c valuesTobeShown =
           Done (console_log (Log_only_show_filtered c valuesTobeShown)
             (w\<lparr>sheet := (sheet w)\<lparr>autoFilterRange := Some r, autoFilterCriteria :=
                Some (0, \<lparr>filterOn = FilterOn_values, criteriaValues = valuesTobeShown\<rparr>)\<rparr>\<rparr>))"
  using assms by (simp add: onlyShowFiltered_def AutoFilter_apply_def)

text \<open>
  Claim C1. Given a worksheet with an autofilter range \<open>r\<close>, \<open>onlyShowFiltered\<close>
  completes and leaves the autofilter on \<open>r\<close> with a values criterion on relative column
  0, whatever column index it was called with: any other index \<open>c'\<close> gives the same
  worksheet. The cells and the used range are untouched (nothing is deleted), and a
  data row of the filter range (a row below its header row) is visible exactly when its
  value in the first column of \<open>r\<close> is in the allow-list.
\<close>

theorem onlyShowFiltered_targets_first_column:
  assumes "autoFilterRange (sheet w) = Some r" and "0 < columnCount r"
  shows "\<exists>w'. onlyShowFiltered w c valuesTobeShown = Done w'
     \<and> autoFilterRange (sheet w') = Some r
     \<and> autoFilterCriteria (sheet w') =
          Some (0, \<lparr>filterOn = FilterOn_values, criteriaValues = valuesTobeShown\<rparr>)
     \<and> (\<forall>c'. sheet (finalWorld (onlyShowFiltered w c' valuesTobeShown)) = sheet w')
     \<and> cells (sheet w') = cells (sheet w)
     \<and> usedRange (sheet w') = usedRange (sheet w)
     \<and> (\<forall>a. firstRow (sheet w) r < a \<and> a < endRow (sheet w) r \<longrightarrow>
           (rowVisible (sheet w') a \<longleftrightarrow> cells (sheet w) a (columnIndex r) \<in> set valuesTobeShown))"
  unfolding onlyShowFiltered_Done [OF assms]
  by (simp add: rowVisible_def firstRow_def endRow_def)

theorem onlyShowFiltered_targets_first_column_witness:
  "autoFilterRange (sheet exampleFiltered) = Some exampleFilterRange
   \<and> 0 < columnCount exampleFilterRange
   \<and> (\<exists>w'. onlyShowFiltered exampleFiltered 4 RISK_LEVELS_TOBE_SHOWN = Done w'
         \<and> \<not> rowVisible (sheet w') 2 \<and> rowVisible (sheet w') 3 \<and> rowVisible (sheet w') 4
         \<and> cells (sheet w') 2 3 = ''Info''
         \<and> usedRange (sheet w') = usedRange exampleSheet)"
proof -
  have af: "autoFilterRange (sheet exampleFiltered) = Some exampleFilterRange"
    by (simp add: exampleFiltered_def)
  have cc: "0 < columnCount exampleFilterRange"
    by (simp add: exampleFilterRange_def)
  have rows: "firstRow (sheet exampleFiltered) exampleFilterRange = 0"
    "endRow (sheet exampleFiltered) exampleFilterRange = 5"
    "columnIndex exampleFilterRange = 3"
    by (simp_all add: firstRow_def endRow_def exampleFiltered_def exampleSheet_def
        exampleFilterRange_def maxRows_def)
  have vals: "cells (sheet exampleFiltered) 2 3 = ''Info''"
    "cells (sheet exampleFiltered) 3 3 = ''Critical''"
    "cells (sheet exampleFiltered) 4 3 = ''Medium''"
    by (simp_all add: exampleFiltered_def exampleSheet_def exampleRows_def)
  from onlyShowFiltered_targets_first_column [OF af cc, of 4 RISK_LEVELS_TOBE_SHOWN]
  obtain w' where run: "onlyShowFiltered exampleFiltered 4 RISK_LEVELS_TOBE_SHOWN = Done w'"
    and c: "cells (sheet w') = cells (sheet exampleFiltered)"
    and u: "usedRange (sheet w') = usedRange (sheet exampleFiltered)"
    and v: "\<forall>a. 0 < a \<and> a < 5 \<longrightarrow>
           (rowVisible (sheet w') a \<longleftrightarrow>
              cells (sheet exampleFiltered) a 3 \<in> set RISK_LEVELS_TOBE_SHOWN)"
    unfolding rows by blast
  from v have "\<not> rowVisible (sheet w') 2" "rowVisible (sheet w') 3" "rowVisible (sheet w') 4"
    by (simp_all add: vals RISK_LEVELS_TOBE_SHOWN_def)
  moreover have "cells (sheet w') 2 3 = ''Info''"
    by (simp add: c vals)
  moreover have "usedRange (sheet w') = usedRange exampleSheet"
    by (simp add: u exampleFiltered_def)
  ultimately show ?thesis
    using af cc run by blast
qed

subsection \<open>The autofit batch\<close>

lemma columnLetters_no_colon:
  "columnLetters cs acc = Some n \<Longrightarrow> CHR '':'' \<notin> set cs"
  by (induction cs arbitrary: acc) (auto simp: Let_def split: if_splits)

lemma getRange_single_column:
  assumes "columnOfLetters c = Some j"
  shows "getRange (c @ '':'' @ c)
           = Some \<lparr>rowIndex = 0, rowCount = maxRows, columnIndex = j, columnCount = 1\<rparr>"
proof -
  from assms obtain n where n: "columnLetters c 0 = Some n"
    by (auto simp: columnOfLetters_def split: if_splits)
  then have nc: "CHR '':'' \<notin> set c"
    by (rule columnLetters_no_colon)
  then have nc': "\<And>x. x \<in> set c \<Longrightarrow> x \<noteq> CHR '':''"
    by auto
  have t: "takeWhile (\<lambda>x. x \<noteq> CHR '':'') (c @ '':'' @ c) = c"
    and d: "dropWhile (\<lambda>x. x \<noteq> CHR '':'') (c @ '':'' @ c) = '':'' @ c"
    by (simp_all add: nc')
  show ?thesis
    unfolding getRange_def t d Let_def using assms by simp
qed

lemma fitWidth_rows:
  "rowIndex r = rowIndex r' \<Longrightarrow> rowCount r = rowCount r' \<Longrightarrow> fitWidth ws r j = fitWidth ws r' j"
  by (simp add: fitWidth_def firstRow_def endRow_def)

lemma rowVisible_columnWidth [simp]: "rowVisible (ws\<lparr>columnWidth := f\<rparr>) = rowVisible ws"
  by (rule ext) (simp add: rowVisible_def firstRow_def endRow_def split: option.split prod.split)

lemma fitWidth_columnWidth [simp]: "fitWidth (ws\<lparr>columnWidth := f\<rparr>) r j = fitWidth ws r j"
  by (simp add: fitWidth_def firstRow_def endRow_def)

lemma autofitColumn_Done:
  assumes "columnOfLetters c = Some j"
  shows "autofitColumn w c =
           Done (console_log (Log_autofit_column c)
             (w\<lparr>sheet := (sheet w)\<lparr>columnWidth := (columnWidth (sheet w))
                  (j := fitWidth (sheet w) (wholeColumn 0) j)\<rparr>\<rparr>))"
proof -
  let ?F = "\<lambda>i. if j \<le> i \<and> i < j + 1 then fitWidth (sheet w) (wholeColumn j) i
              else columnWidth (sheet w) i"
  have fg: "?F = (columnWidth (sheet w))(j := fitWidth (sheet w) (wholeColumn 0) j)"
    by (rule ext) (auto intro: fitWidth_rows simp: wholeColumn_def)
  have "RangeFormat_autofitColumns (sheet w) (wholeColumn j) = (sheet w)\<lparr>columnWidth := ?F\<rparr>"
    unfolding RangeFormat_autofitColumns_def wholeColumn_def by simp
  also have "\<dots> = (sheet w)\<lparr>columnWidth :=
        (columnWidth (sheet w))(j := fitWidth (sheet w) (wholeColumn 0) j)\<rparr>"
    by (simp only: fg)
  finally have "RangeFormat_autofitColumns (sheet w) (wholeColumn j) =
      (sheet w)\<lparr>columnWidth := (columnWidth (sheet w))(j := fitWidth (sheet w) (wholeColumn 0) j)\<rparr>" .
  moreover have "getRange (c @ '':'' @ c) = Some (wholeColumn j)"
    unfolding wholeColumn_def by (rule getRange_single_column [OF assms])
  ultimately show ?thesis
    unfolding autofitColumn_def by simp
qed

lemma autofitEach_Done:
  assumes "list_all (\<lambda>c. columnOfLetters c \<noteq> None) cs"
  shows "\<exists>w'. autofitEach w cs = Done w'
     \<and> sheet w' = (sheet w)\<lparr>columnWidth := (\<lambda>i.
          if Some i \<in> columnOfLetters ` set cs then fitWidth (sheet w) (wholeColumn 0) i
          else columnWidth (sheet w) i)\<rparr>"
  using assms
proof (induction cs arbitrary: w)
  case Nil
  then show ?case by simp
next
  case (Cons c cs)
  then obtain j where j: "columnOfLetters c = Some j" and rest: "list_all (\<lambda>c. columnOfLetters c \<noteq> None) cs"
    by auto
  let ?w1 = "console_log (Log_autofit_column c)
             (w\<lparr>sheet := (sheet w)\<lparr>columnWidth := (columnWidth (sheet w))
                  (j := fitWidth (sheet w) (wholeColumn 0) j)\<rparr>\<rparr>)"
  from Cons.IH [OF rest, of ?w1] obtain w' where w': "autofitEach ?w1 cs = Done w'"
    and sh: "sheet w' = (sheet ?w1)\<lparr>columnWidth := (\<lambda>i.
          if Some i \<in> columnOfLetters ` set cs then fitWidth (sheet ?w1) (wholeColumn 0) i
          else columnWidth (sheet ?w1) i)\<rparr>"
    by blast
  have "autofitEach w (c # cs) = Done w'"
    by (simp add: autofitColumn_Done [OF j] w')
  moreover have "sheet w' = (sheet w)\<lparr>columnWidth := (\<lambda>i.
          if Some i \<in> columnOfLetters ` set (c # cs) then fitWidth (sheet w) (wholeColumn 0) i
          else columnWidth (sheet w) i)\<rparr>"
  proof -
    let ?G = "\<lambda>i. if Some i \<in> columnOfLetters ` set cs then fitWidth (sheet ?w1) (wholeColumn 0) i
          else columnWidth (sheet ?w1) i"
    let ?H = "\<lambda>i. if Some i \<in> columnOfLetters ` set (c # cs) then fitWidth (sheet w) (wholeColumn 0) i
          else columnWidth (sheet w) i"
    have gh: "?G = ?H"
      by (rule ext) (auto simp: j)
    have "sheet w' = (sheet w)\<lparr>columnWidth := ?G\<rparr>"
      unfolding sh by simp
    also have "\<dots> = (sheet w)\<lparr>columnWidth := ?H\<rparr>"
      by (simp only: gh)
    finally show ?thesis .
  qed
  ultimately show ?case by blast
qed

text \<open>
  Claim C9. For a list of column identifiers (strings the host accepts as a column)
  and any reordering of it (the same identifiers, each as often), both batches
  complete and leave the same worksheet. The width of a column named in the list is
  the fitted width of its contents in the worksheet as it was before the batch, and
  every other width is unchanged: the result depends on the set of identifiers only.
  Only the console shows the order of the calls.
\<close>

theorem autofitColumns_order_independent:
  assumes "mset xs = mset ys" and "list_all (\<lambda>c. columnOfLetters c \<noteq> None) xs"
  shows "\<exists>w1 w2. autofitColumns w xs = Done w1 \<and> autofitColumns w ys = Done w2
           \<and> sheet w1 = sheet w2
           \<and> columnWidth (sheet w1) = (\<lambda>j.
                 if Some j \<in> columnOfLetters ` set xs then fitWidth (sheet w) (wholeColumn 0) j
                 else columnWidth (sheet w) j)"
proof -
  from assms(1) have set: "set xs = set ys"
    by (rule mset_eq_setD)
  with assms(2) have ys: "list_all (\<lambda>c. columnOfLetters c \<noteq> None) ys"
    by (simp add: list_all_iff)
  from autofitEach_Done [OF assms(2), of w] autofitEach_Done [OF ys, of w]
  show ?thesis
    unfolding autofitColumns_def set by auto
qed

theorem autofitColumns_order_independent_witness:
  "mset [''E'', ''F'', ''M''] = mset [''M'', ''E'', ''F'']
   \<and> list_all (\<lambda>c. columnOfLetters c \<noteq> None) [''E'', ''F'', ''M'']
   \<and> (\<exists>w1 w2. autofitColumns (exampleWorld ''scan.xlsx'') [''E'', ''F'', ''M''] = Done w1
         \<and> autofitColumns (exampleWorld ''scan.xlsx'') [''M'', ''E'', ''F''] = Done w2
         \<and> sheet w1 = sheet w2)"
proof -
  let ?w = "exampleWorld ''scan.xlsx''"
  have p: "mset [''E'', ''F'', ''M''] = mset [''M'', ''E'', ''F'']"
    by simp
  have v: "list_all (\<lambda>c. columnOfLetters c \<noteq> None) [''E'', ''F'', ''M'']"
    by (simp add: columnOfLetters_def)
  from autofitColumns_order_independent [OF p v, of ?w]
  have "\<exists>w1 w2. autofitColumns ?w [''E'', ''F'', ''M''] = Done w1
         \<and> autofitColumns ?w [''M'', ''E'', ''F''] = Done w2
         \<and> sheet w1 = sheet w2"
    by blast
  with p v show ?thesis by blast
qed

subsection \<open>The run of \<open>main\<close>\<close>

lemma andThen_Done [simp]: "andThen r Done = r"
  by (cases r) simp_all

lemma runSteps_Nil_fun: "runSteps [] = Done"
  by (rule ext) simp

lemma runSteps_Cons_fun: "runSteps (step # steps) = (\<lambda>w. andThen (step w) (runSteps steps))"
  by (rule ext) simp

lemma main_runSteps: "main w = runSteps main_steps w"
  by (simp add: main_def main_steps_def runSteps_Cons_fun runSteps_Nil_fun newArray_def)

lemma runSteps_Raised:
  assumes "runSteps steps w = Raised e w'"
  shows "\<exists>k < length steps. \<exists>wk. runSteps (take k steps) w = Done wk \<and> (steps ! k) wk = Raised e w'"
  using assms
proof (induction steps arbitrary: w)
  case Nil
  then show ?case by simp
next
  case (Cons step steps)
  show ?case
  proof (cases "step w")
    case (Done w1)
    with Cons.prems have "runSteps steps w1 = Raised e w'" by simp
    from Cons.IH [OF this] obtain k wk where k: "k < length steps"
      and pre: "runSteps (take k steps) w1 = Done wk" and at: "(steps ! k) wk = Raised e w'"
      by blast
    have "runSteps (take (Suc k) (step # steps)) w = Done wk"
      by (simp add: Done pre)
    with k at show ?thesis
      by (intro exI [of _ "Suc k"]) auto
  next
    case (Raised e1 w1)
    with Cons.prems have "step w = Raised e w'" by simp
    then show ?thesis
      by (intro exI [of _ 0]) auto
  qed
qed

lemma hideColumns_Raised: "hideColumns w a = Raised e w' \<Longrightarrow> e = HostFailure \<and> w' = w"
  by (auto simp: hideColumns_def split: option.splits)

lemma filterColumns_Raised: "filterColumns w a = Raised e w' \<Longrightarrow> e = HostFailure \<and> w' = w"
  by (auto simp: filterColumns_def split: option.splits)

lemma sort_column_Raised:
  "sort_column w c = Raised e w' \<Longrightarrow> (e = HostFailure \<or> e = ColumnIndexNegative c \<and> c < 0) \<and> w' = w"
  by (auto simp: sort_column_def split: option.splits if_splits)

lemma removeDuplicates_Raised:
  "removeDuplicates w r = Raised e w'
     \<Longrightarrow> e = HostFailure \<and> sheet w' = sheet w \<and> console w' = console w"
  by (auto simp: removeDuplicates_def Let_def translateLoop_0 split: option.splits
      simp del: translateLoop.simps)

lemma setRowHeight_Raised:
  "setRowHeight w h = Raised e w' \<Longrightarrow> e = RowHeightNonPositive h \<and> h \<le> 0 \<and> w' = w"
  by (auto simp: setRowHeight_def split: if_splits)

lemma onlyShowFiltered_Raised:
  "onlyShowFiltered w c vs = Raised e w' \<Longrightarrow> e = HostFailure \<and> w' = w"
  by (auto simp: onlyShowFiltered_def split: option.splits)

lemma autofitColumns_main_Done: "\<exists>w'. autofitColumns w COLUMNS_TOBE_AUTOFITTED = Done w'"
proof -
  have "list_all (\<lambda>c. columnOfLetters c \<noteq> None) COLUMNS_TOBE_AUTOFITTED"
    by (simp add: COLUMNS_TOBE_AUTOFITTED_def columnOfLetters_def)
  from autofitEach_Done [OF this, of w] show ?thesis
    by (auto simp: autofitColumns_def)
qed

lemma main_steps_Raised:
  assumes "k < length main_steps" and "(main_steps ! k) wk = Raised e w'"
  shows "(e = NotXlsxFile \<or> e = HostFailure)
     \<and> sheet w' = sheet wk \<and> console w' = console wk"
proof -
  from assms(1) have "k = 0 \<or> k = 1 \<or> k = 2 \<or> k = 3 \<or> k = 4 \<or> k = 5 \<or> k = 6 \<or> k = 7"
    by (auto simp: main_steps_def)
  then show ?thesis
  proof (elim disjE)
    assume "k = 0" with assms(2) show ?thesis
      by (auto simp: main_steps_def split: if_splits)
  next
    assume "k = 1" with assms(2) show ?thesis
      by (auto simp: main_steps_def dest: hideColumns_Raised)
  next
    assume "k = 2" with assms(2) show ?thesis
      by (auto simp: main_steps_def dest: filterColumns_Raised)
  next
    assume "k = 3" with assms(2) show ?thesis
      by (auto simp: main_steps_def RISK_COLUMN_def dest: sort_column_Raised)
  next
    assume "k = 4" with assms(2) show ?thesis
      by (auto simp: main_steps_def newArray_def dest!: removeDuplicates_Raised)
  next
    assume "k = 5" with assms(2) show ?thesis
      by (auto simp: main_steps_def UNIFIED_ROW_HEIGHT_def dest: setRowHeight_Raised)
  next
    assume "k = 6" with assms(2) show ?thesis
      by (auto simp: main_steps_def dest: onlyShowFiltered_Raised)
  next
    assume "k = 7" with assms(2) show ?thesis
      using autofitColumns_main_Done [of wk] by (auto simp: main_steps_def)
  qed
qed

lemma getRange_A_C:
  "getRange ''A:C'' = Some \<lparr>rowIndex = 0, rowCount = maxRows, columnIndex = 0, columnCount = 3\<rparr>"
  by (simp add: getRange_def columnOfLetters_def)

lemma getRange_D_O:
  "getRange ''D:O'' = Some \<lparr>rowIndex = 0, rowCount = maxRows, columnIndex = 3, columnCount = 12\<rparr>"
  by (simp add: getRange_def columnOfLetters_def)

lemma autoFilterRange_setValues [simp]:
  "autoFilterRange (setValues ws r rows) = autoFilterRange ws"
  by (simp add: setValues_def)

lemma columnHidden_setValues [simp]:
  "columnHidden (setValues ws r rows) = columnHidden ws"
  by (simp add: setValues_def)

lemma hideColumns_main:
  "hideColumns w COLUMNS_TOBE_HIDDEN =
     Done (console_log (Log_columns_hidden COLUMNS_TOBE_HIDDEN)
       (w\<lparr>sheet := Range_setColumnHidden (sheet w)
          \<lparr>rowIndex = 0, rowCount = maxRows, columnIndex = 0, columnCount = 3\<rparr> True\<rparr>))"
  unfolding hideColumns_def COLUMNS_TOBE_HIDDEN_def getRange_A_C by simp

lemma filterColumns_main:
  "filterColumns w COLUMNS_TOBE_FILTERED =
     Done (console_log (Log_filters_applied COLUMNS_TOBE_FILTERED)
       (w\<lparr>sheet := (sheet w)\<lparr>autoFilterRange :=
            Some \<lparr>rowIndex = 0, rowCount = maxRows, columnIndex = 3, columnCount = 12\<rparr>,
          autoFilterCriteria := None\<rparr>\<rparr>))"
  unfolding filterColumns_def COLUMNS_TOBE_FILTERED_def getRange_D_O
  by (simp add: AutoFilter_apply_def)

lemma sort_column_frame:
  assumes "sort_column w c = Done w'"
  shows "usedRange (sheet w') = usedRange (sheet w)
     \<and> autoFilterRange (sheet w') = autoFilterRange (sheet w)
     \<and> columnHidden (sheet w') = columnHidden (sheet w)"
proof -
  from assms obtain r ws where
    "RangeSort_apply (sheet w) r [\<lparr>key = c - int (columnIndex r), ascending = True\<rparr>] False True
       = Some ws"
    and "w' = console_log (Log_table_sorted c) (w\<lparr>sheet := ws\<rparr>)"
    by (rule sort_column_Done)
  with RangeSort_apply_single [of "sheet w" r "c - int (columnIndex r)" ws]
  show ?thesis by simp
qed

lemma Range_removeDuplicates_frame:
  assumes "Range_removeDuplicates ws r columns includesHeader = Some ws'"
  shows "autoFilterRange ws' = autoFilterRange ws \<and> columnHidden ws' = columnHidden ws"
  using assms by (auto simp: Range_removeDuplicates_def Let_def split: if_splits)

lemma removeDuplicates_frame:
  assumes "removeDuplicates w r = Done w'"
  shows "autoFilterRange (sheet w') = autoFilterRange (sheet w)
     \<and> columnHidden (sheet w') = columnHidden (sheet w)"
proof -
  from removeDuplicates_Done [OF assms] obtain ws where
    "Range_removeDuplicates (sheet w) (usedRange (sheet w))
       (map (\<lambda>c. c - int (columnIndex (usedRange (sheet w)))) (arrays w r)) True = Some ws"
    and "sheet w' = ws"
    by blast
  with Range_removeDuplicates_frame [of "sheet w" _ _ True ws] show ?thesis
    by simp
qed

lemma main_completes:
  assumes name: "endsWith (workbookName w) ''.xlsx''"
    and lo: "columnIndex (usedRange (sheet w)) \<le> 3"
    and hi: "15 \<le> columnIndex (usedRange (sheet w)) + columnCount (usedRange (sheet w))"
  shows "\<exists>w'. main w = Done w'"
proof -
  let ?DO = "\<lparr>rowIndex = 0, rowCount = maxRows, columnIndex = 3, columnCount = 12\<rparr>"
  obtain w1 where s1: "hideColumns w COLUMNS_TOBE_HIDDEN = Done w1"
    and u1: "usedRange (sheet w1) = usedRange (sheet w)"
    by (simp add: hideColumns_main Range_setColumnHidden_def)
  obtain w2 where s2: "filterColumns w1 COLUMNS_TOBE_FILTERED = Done w2"
    and u2: "usedRange (sheet w2) = usedRange (sheet w1)"
    and f2: "autoFilterRange (sheet w2) = Some ?DO"
    by (simp add: filterColumns_main)
  have "\<exists>w3. sort_column w2 RISK_COLUMN = Done w3"
    by (rule sort_column_completes [OF _ f2]) (simp_all add: RISK_COLUMN_def)
  then obtain w3 where s3: "sort_column w2 RISK_COLUMN = Done w3" ..
  from sort_column_frame [OF s3] have u3: "usedRange (sheet w3) = usedRange (sheet w2)"
    and f3: "autoFilterRange (sheet w3) = Some ?DO"
    by (simp_all add: f2)
  obtain w3' ref where a: "newArray w3 DUPLICATES_CONSIDERED_COLUMNS = (w3', ref)"
    by (cases "newArray w3 DUPLICATES_CONSIDERED_COLUMNS")
  then have sh: "sheet w3' = sheet w3" and ar: "arrays w3' ref = DUPLICATES_CONSIDERED_COLUMNS"
    by (auto simp: newArray_def)
  have "\<exists>w4. removeDuplicates w3' ref = Done w4"
    by (rule removeDuplicates_completes)
       (insert lo hi, simp add: sh ar u3 u2 u1 DUPLICATES_CONSIDERED_COLUMNS_def)
  then obtain w4 where s4: "removeDuplicates w3' ref = Done w4" ..
  from removeDuplicates_frame [OF s4] have f4: "autoFilterRange (sheet w4) = Some ?DO"
    by (simp add: sh f3)
  obtain w5 where s5: "setRowHeight w4 UNIFIED_ROW_HEIGHT = Done w5"
    and f5: "autoFilterRange (sheet w5) = Some ?DO"
    by (simp add: setRowHeight_def UNIFIED_ROW_HEIGHT_def RangeFormat_setRowHeight_def f4)
  have s6: "\<exists>w6. onlyShowFiltered w5 RISK_COLUMN RISK_LEVELS_TOBE_SHOWN = Done w6"
    by (simp add: onlyShowFiltered_Done [OF f5])
  then obtain w6 where s6: "onlyShowFiltered w5 RISK_COLUMN RISK_LEVELS_TOBE_SHOWN = Done w6" ..
  obtain w7 where s7: "autofitColumns w6 COLUMNS_TOBE_AUTOFITTED = Done w7"
    using autofitColumns_main_Done by blast
  have "main w = Done w7"
    by (simp add: main_def name s1 s2 s3 a s4 s5 s6 s7)
  then show ?thesis ..
qed

lemma example_main_fails:
  "\<exists>w'. main (exampleWorld ''scan.xlsx'') = Raised HostFailure w'
      \<and> columnHidden (sheet w') 0 \<and> columnHidden (sheet w') 2 \<and> \<not> columnHidden (sheet w') 3
      \<and> autoFilterRange (sheet w')
           = Some \<lparr>rowIndex = 0, rowCount = maxRows, columnIndex = 3, columnCount = 12\<rparr>
      \<and> console w' = [Log_columns_hidden ''A:C'', Log_filters_applied ''D:O'',
                        Log_table_sorted 3]"
  by (simp add: main_def exampleWorld_def endsWith_def
      COLUMNS_TOBE_HIDDEN_def COLUMNS_TOBE_FILTERED_def RISK_COLUMN_def
      DUPLICATES_CONSIDERED_COLUMNS_def
      hideColumns_def getRange_A_C Range_setColumnHidden_def
      filterColumns_def getRange_D_O AutoFilter_apply_def
      sort_column_def RangeSort_apply_def Let_def console_log_def
      newArray_def removeDuplicates_def translateLoop_0 Range_removeDuplicates_def
      exampleSheet_def setValues_def
      del: translateLoop.simps)

text \<open>
  Claim C8. Whenever \<open>main\<close> raises, some step \<open>k\<close> of its statement list raised: the
  steps before it completed and produced the world \<open>wk\<close>, step \<open>k\<close> raised from \<open>wk\<close>,
  and the world of the run is the one that step left. Its worksheet is the worksheet
  of \<open>wk\<close>: everything the completed steps changed is still in place, nothing is
  rolled back. Its console is the console of \<open>wk\<close>: the failing step did not reach its
  log line, and no later step has run.
\<close>

theorem main_no_rollback:
  assumes "main w = Raised e w'"
  shows "\<exists>k < length main_steps. \<exists>wk.
           runSteps (take k main_steps) w = Done wk
           \<and> (main_steps ! k) wk = Raised e w'
           \<and> sheet w' = sheet wk \<and> console w' = console wk"
proof -
  from assms have "runSteps main_steps w = Raised e w'"
    by (simp add: main_runSteps)
  from runSteps_Raised [OF this] obtain k wk where k: "k < length main_steps"
    and pre: "runSteps (take k main_steps) w = Done wk"
    and at: "(main_steps ! k) wk = Raised e w'"
    by blast
  from main_steps_Raised [OF k at] have "sheet w' = sheet wk" "console w' = console wk"
    by simp_all
  with k pre at show ?thesis by blast
qed

theorem main_no_rollback_witness:
  "\<exists>e w'. main (exampleWorld ''scan.xlsx'') = Raised e w'
      \<and> (\<exists>k < length main_steps. \<exists>wk.
            runSteps (take k main_steps) (exampleWorld ''scan.xlsx'') = Done wk
            \<and> (main_steps ! k) wk = Raised e w'
            \<and> sheet w' = sheet wk \<and> console w' = console wk)
      \<and> columnHidden (sheet w') 0 \<and> columnHidden (sheet w') 2
      \<and> autoFilterRange (sheet w')
           = Some \<lparr>rowIndex = 0, rowCount = maxRows, columnIndex = 3, columnCount = 12\<rparr>
      \<and> console w' = [Log_columns_hidden ''A:C'', Log_filters_applied ''D:O'',
                        Log_table_sorted 3]"
proof -
  from example_main_fails obtain w'
    where run: "main (exampleWorld ''scan.xlsx'') = Raised HostFailure w'"
      and kept: "columnHidden (sheet w') 0" "columnHidden (sheet w') 2"
        "autoFilterRange (sheet w')
           = Some \<lparr>rowIndex = 0, rowCount = maxRows, columnIndex = 3, columnCount = 12\<rparr>"
        "console w' = [Log_columns_hidden ''A:C'', Log_filters_applied ''D:O'',
                        Log_table_sorted 3]"
    by blast
  from main_no_rollback [OF run] run kept show ?thesis
    by blast
qed

text \<open>
  Claim C10. With \<open>RISK_COLUMN = 3\<close> and \<open>UNIFIED_ROW_HEIGHT = 14\<close>, the call of \<open>sort\<close>
  in \<open>main\<close> never raises the negative-index error and the call of \<open>setRowHeight\<close>
  never raises the non-positive-height error, in whatever world they run. An error
  that \<open>main\<close> raises is therefore the file-kind error, or a failure of the host; of
  the three \<open>throw\<close> statements of the script only the first can be reached.
\<close>

theorem main_raises_only_file_kind:
  "sort_column w1 RISK_COLUMN \<noteq> Raised (ColumnIndexNegative c) w1'
   \<and> setRowHeight w2 UNIFIED_ROW_HEIGHT \<noteq> Raised (RowHeightNonPositive h) w2'
   \<and> (main w = Raised e w' \<longrightarrow> e = NotXlsxFile \<or> e = HostFailure)"
proof (intro conjI impI)
  show "sort_column w1 RISK_COLUMN \<noteq> Raised (ColumnIndexNegative c) w1'"
    by (auto simp: RISK_COLUMN_def dest: sort_column_Raised)
  show "setRowHeight w2 UNIFIED_ROW_HEIGHT \<noteq> Raised (RowHeightNonPositive h) w2'"
    by (auto simp: UNIFIED_ROW_HEIGHT_def dest: setRowHeight_Raised)
  assume "main w = Raised e w'"
  then have "runSteps main_steps w = Raised e w'"
    by (simp add: main_runSteps)
  from runSteps_Raised [OF this] obtain k wk where k: "k < length main_steps"
    and at: "(main_steps ! k) wk = Raised e w'"
    by blast
  from main_steps_Raised [OF k at] show "e = NotXlsxFile \<or> e = HostFailure" ..
qed

theorem main_raises_only_file_kind_witness:
  "\<exists>e w'. main (exampleWorld ''scan.xlsx'') = Raised e w'
      \<and> (e = NotXlsxFile \<or> e = HostFailure)"
proof -
  from example_main_fails obtain e w'
    where run: "main (exampleWorld ''scan.xlsx'') = Raised e w'"
    by blast
  have "e = NotXlsxFile \<or> e = HostFailure"
    by (rule main_raises_only_file_kind [THEN conjunct2, THEN conjunct2, THEN mp, OF run])
  with run show ?thesis by blast
qed

end
